theory Spec2Isabelle
  imports Main "HOL-Library.Multiset"
begin

section \<open>TickerToCIK: ticker lookup against the SEC site, with a timer-based rate gate\<close>

text \<open>
  Shallow embedding of \<^verbatim>\<open>tickerToCIK.py\<close> and \<^verbatim>\<open>timer.py\<close>.

  Python exceptions are values of \<open>py_error\<close>; a function that may raise returns
  \<open>py_error + 'a\<close> (\<open>Inl\<close> the exception). The network is an explicit world: the log
  of every URL requested so far, and a server that answers a request from the
  log and the URL. The file system is explicit as well. A dict is an association list
  in insertion order. Progress bars and \<^verbatim>\<open>print\<close> are left out.
\<close>

subsection \<open>Exceptions, strings and argument values\<close>

datatype py_error =
    TypeError
  | ValueError
  | AssertionError
  | AttributeError
  | ConnectionError
  | UnicodeDecodeError
  | UnicodeEncodeError
  | FileNotFoundError
  | PermissionError
  | IsADirectoryError

text \<open>A Python \<^verbatim>\<open>str\<close> is a sequence of Unicode code points, here natural numbers.
  \<open>codes\<close> gives the code points of a literal; file paths, which are only compared,
  stay literals.\<close>

type_synonym str = "nat list"

definition codes :: "string \<Rightarrow> str" where
  "codes s = map of_char s"

text \<open>The values a caller can pass for \<^verbatim>\<open>tickers\<close> and \<^verbatim>\<open>enableMultiThreading\<close>.\<close>

datatype py_value =
    PyNone
  | PyBool bool
  | PyInt int
  | PyStr str
  | PyList "str list"

subsection \<open>String operations used by \<^verbatim>\<open>get_CIK\<close>\<close>

text \<open>\<^verbatim>\<open>str.strip()\<close> removes leading and trailing whitespace, the code points for which
  \<^verbatim>\<open>str.isspace\<close> holds: U+0009 to U+000D, U+001C to U+0020, U+0085, U+00A0, U+1680,
  U+2000 to U+200A, U+2028, U+2029, U+202F, U+205F and U+3000.\<close>

definition is_space :: "nat \<Rightarrow> bool" where
  "is_space c =
     ((9 \<le> c \<and> c \<le> 13) \<or> (28 \<le> c \<and> c \<le> 32) \<or> c = 133 \<or> c = 160 \<or> c = 5760 \<or>
      (8192 \<le> c \<and> c \<le> 8202) \<or> c = 8232 \<or> c = 8233 \<or> c = 8239 \<or> c = 8287 \<or>
      c = 12288)"

definition py_strip :: "str \<Rightarrow> str" where
  "py_strip s = rev (dropWhile is_space (rev (dropWhile is_space s)))"

text \<open>\<^verbatim>\<open>s.replace("\n", "")\<close>; the newline is code point 10.\<close>

definition remove_newlines :: "str \<Rightarrow> str" where
  "remove_newlines s = filter (\<lambda>c. c \<noteq> 10) s"

definition ticker_url :: "str \<Rightarrow> str" where
  "ticker_url ticker =
     codes ''https://www.sec.gov/cgi-bin/browse-edgar?CIK='' @
     remove_newlines (py_strip ticker) @
     codes ''&owner=exclude&action=getcompany''"

text \<open>The regular expression \<^verbatim>\<open>([0-9]*) \(see all company filings\)\<close>: a greedy run
  of the digits 0 to 9, code points 48 to 57 (the group), followed by a literal.\<close>

definition is_digit :: "nat \<Rightarrow> bool" where
  "is_digit c = (48 \<le> c \<and> c \<le> 57)"

definition filings_literal :: str where
  "filings_literal = codes '' (see all company filings)''"

fun starts_with :: "'a list \<Rightarrow> 'a list \<Rightarrow> bool" where
  "starts_with [] s = True"
| "starts_with (p # ps) [] = False"
| "starts_with (p # ps) (c # cs) = (p = c \<and> starts_with ps cs)"

text \<open>\<^verbatim>\<open>re.findall\<close> scans from the left. At a position the greedy digit run is taken
  and the literal must follow it (giving digits back cannot help: the literal starts with
  a space); a match yields its group and the scan goes on after the match, a failure moves
  one character on.\<close>

function re_findall :: "str \<Rightarrow> str list" where
  "re_findall [] = []"
| "re_findall (c # cs) =
     (let d = takeWhile is_digit (c # cs); r = dropWhile is_digit (c # cs) in
      if starts_with filings_literal r
      then d # re_findall (drop (length filings_literal) r)
      else re_findall cs)"
  by pat_completeness auto
termination
proof (relation "measure length", goal_cases)
  case 1
  show ?case by simp
next
  case (2 c cs d r)
  have "length r \<le> length (c # cs)"
    using 2(2) length_dropWhile_le [of is_digit "c # cs"] by (simp del: dropWhile.simps)
  moreover have "r \<noteq> []"
    using 2(3) by (auto simp: filings_literal_def codes_def)
  ultimately show ?case
    by (cases r) (auto simp: filings_literal_def codes_def)
next
  case (3 c cs d r)
  show ?case by simp
qed

declare re_findall.simps [simp del]

subsection \<open>The network\<close>

record response =
  ok :: bool
  content :: "str option"

text \<open>\<open>content\<close> is the decoded body; \<open>None\<close> stands for bytes that
  \<^verbatim>\<open>.decode()\<close> rejects. A server answers from the requests seen so far and the
  URL, with a response or a transport failure that \<^verbatim>\<open>requests.get\<close> raises.\<close>

type_synonym world = "str list"
type_synonym server = "str list \<Rightarrow> str \<Rightarrow> py_error + response"

definition http_get :: "server \<Rightarrow> str \<Rightarrow> world \<Rightarrow> (py_error + response) \<times> world" where
  "http_get srv url w = (srv w url, w @ [url])"

subsection \<open>\<^verbatim>\<open>get_CIK\<close>\<close>

definition get_CIK :: "server \<Rightarrow> str \<Rightarrow> world \<Rightarrow> (py_error + str option) \<times> world" where
  "get_CIK srv ticker w =
     (let url = ticker_url ticker in
      case http_get srv url w of
        (Inl e, w1) \<Rightarrow> (Inl e, w1)
      | (Inr conn, w1) \<Rightarrow>
          (case http_get srv url w1 of
             (Inl e, w2) \<Rightarrow> (Inl e, w2)
           | (Inr resp, w2) \<Rightarrow>
               (case content resp of
                  None \<Rightarrow> (Inl UnicodeDecodeError, w2)
                | Some data \<Rightarrow>
                    if \<not> ok conn then (Inl AssertionError, w2)
                    else (Inr (case re_findall data of
                                 [] \<Rightarrow> None
                               | v # _ \<Rightarrow> Some (remove_newlines v)), w2))))"

subsection \<open>The result dict\<close>

text \<open>A Python dict keeps insertion order, and assigning to a key that is present keeps
  the key's place. \<open>dict_set d k v\<close> is \<^verbatim>\<open>d[k] = v\<close>.\<close>

type_synonym dict = "(str \<times> str option) list"

fun dict_set :: "('k \<times> 'v) list \<Rightarrow> 'k \<Rightarrow> 'v \<Rightarrow> ('k \<times> 'v) list" where
  "dict_set [] k v = [(k, v)]"
| "dict_set ((k', v') # kvs) k v =
     (if k' = k then (k, v) # kvs else (k', v') # dict_set kvs k v)"

subsection \<open>\<^verbatim>\<open>timer.py\<close>: the Timer class\<close>

text \<open>The attribute \<^verbatim>\<open>_thread\<close> of a Timer: \<^verbatim>\<open>None\<close>, a thread sleeping the given
  number of seconds, or absent after \<^verbatim>\<open>del self._thread\<close>.\<close>

datatype thread_attr = AttrNone | AttrThread int | AttrDeleted

record timer =
  thread :: thread_attr

text \<open>What the main thread does to the outside: start a timer thread, block in a join
  on it, start a worker thread for the ticker at a position.\<close>

datatype event = TimerStarted int | TimerJoined int | ThreadSpawned int str

definition Timer_init :: timer where
  "Timer_init = \<lparr>thread = AttrNone\<rparr>"

definition timer_start :: "timer \<Rightarrow> int \<Rightarrow> timer \<times> event list" where
  "timer_start tm seconds = (tm\<lparr>thread := AttrThread seconds\<rparr>, [TimerStarted seconds])"

definition timer_wait :: "timer \<Rightarrow> py_error + timer \<times> event list" where
  "timer_wait tm =
     (case thread tm of
        AttrDeleted \<Rightarrow> Inl AttributeError
      | AttrThread s \<Rightarrow> Inr (tm\<lparr>thread := AttrDeleted\<rparr>, [TimerJoined s])
      | AttrNone \<Rightarrow> Inr (tm, []))"


subsection \<open>\<^verbatim>\<open>_get_CIKs_multithread\<close>\<close>

definition numberOfConnectionsPerSecond :: int where
  "numberOfConnectionsPerSecond = 5"

text \<open>The \<^verbatim>\<open>for pos, ticker in enumerate(tickers)\<close> loop of the main thread, with the
  limit it compares against as a parameter. The state is the counter \<open>i\<close>, the position,
  the timer, the events so far and the tickers of the threads started so far.\<close>

fun mt_loop ::
  "int \<Rightarrow> int \<Rightarrow> int \<Rightarrow> str list \<Rightarrow> timer \<Rightarrow> event list \<Rightarrow> str list
   \<Rightarrow> py_error + str list \<times> timer \<times> event list" where
  "mt_loop k i pos [] tm tr threads = Inr (threads, tm, tr)"
| "mt_loop k i pos (ticker # rest) tm tr threads =
     (if pos - i \<ge> k then
        (case timer_wait tm of
           Inl e \<Rightarrow> Inl e
         | Inr (tm1, ev1) \<Rightarrow>
             (case timer_start tm1 1 of
                (tm2, ev2) \<Rightarrow>
                  mt_loop k pos (pos + 1) rest tm2
                    (tr @ ev1 @ ev2 @ [ThreadSpawned pos ticker]) (threads @ [ticker])))
      else mt_loop k i (pos + 1) rest tm (tr @ [ThreadSpawned pos ticker]) (threads @ [ticker]))"

definition mt_dispatch ::
  "int \<Rightarrow> str list \<Rightarrow> py_error + str list \<times> timer \<times> event list" where
  "mt_dispatch k tickers =
     (case timer_start Timer_init 1 of
        (tm, ev) \<Rightarrow> mt_loop k 0 0 tickers tm ev [])"

text \<open>The function a worker calls for its ticker, on the world it finds: \<^verbatim>\<open>get_CIK\<close> in
  the source, a parameter here so that a stub can stand in for it.\<close>

type_synonym 'w fetch = "str \<Rightarrow> 'w \<Rightarrow> (py_error + str option) \<times> 'w"

text \<open>The workers run \<^verbatim>\<open>output.__setitem__(ticker, get_CIK(ticker))\<close>. Their bodies are
  taken one at a time, in the order of completion; a worker whose fetch raises dies
  without writing. The order of completion is any rearrangement of the order of start:
  \<open>completion_order sched\<close> picks, for each number of the schedule, one of the workers
  still pending.\<close>

fun completion_order :: "nat list \<Rightarrow> 'a list \<Rightarrow> 'a list" where
  "completion_order cs [] = []"
| "completion_order [] (x # xs) = x # xs"
| "completion_order (c # cs) (x # xs) =
     (let k = c mod length (x # xs) in
      (x # xs) ! k # completion_order cs (take k (x # xs) @ drop (Suc k) (x # xs)))"

fun run_workers :: "'w fetch \<Rightarrow> str list \<Rightarrow> dict \<Rightarrow> 'w \<Rightarrow> dict \<times> 'w" where
  "run_workers fetch [] out w = (out, w)"
| "run_workers fetch (ticker # rest) out w =
     (case fetch ticker w of
        (Inl e, w') \<Rightarrow> run_workers fetch rest out w'
      | (Inr v, w') \<Rightarrow> run_workers fetch rest (dict_set out ticker v) w')"

definition get_CIKs_multithread ::
  "'w fetch \<Rightarrow> nat list \<Rightarrow> str list \<Rightarrow> 'w \<Rightarrow> (py_error + dict) \<times> 'w" where
  "get_CIKs_multithread fetch sched tickers w =
     (case mt_dispatch numberOfConnectionsPerSecond tickers of
        Inl e \<Rightarrow> (Inl e, w)
      | Inr (threads, tm, tr) \<Rightarrow>
          (case run_workers fetch (completion_order sched threads) [] w of
             (out, w') \<Rightarrow> (Inr out, w')))"

subsection \<open>\<^verbatim>\<open>get_CIKs\<close>\<close>

text \<open>\<^verbatim>\<open>hasattr(tickers, "__next__") or hasattr(tickers, "__iter__")\<close>, and what the
  iteration yields: a list its elements, a string its characters.\<close>

fun py_iter :: "py_value \<Rightarrow> str list option" where
  "py_iter (PyList xs) = Some xs"
| "py_iter (PyStr s) = Some (map (\<lambda>c. [c]) s)"
| "py_iter _ = None"

fun seq_loop :: "'w fetch \<Rightarrow> str list \<Rightarrow> dict \<Rightarrow> 'w \<Rightarrow> (py_error + dict) \<times> 'w" where
  "seq_loop fetch [] out w = (Inr out, w)"
| "seq_loop fetch (ticker # rest) out w =
     (case fetch ticker w of
        (Inl e, w') \<Rightarrow> (Inl e, w')
      | (Inr v, w') \<Rightarrow> seq_loop fetch rest (dict_set out ticker v) w')"

definition get_CIKs ::
  "'w fetch \<Rightarrow> nat list \<Rightarrow> py_value \<Rightarrow> py_value \<Rightarrow> 'w \<Rightarrow> (py_error + dict) \<times> 'w" where
  "get_CIKs fetch sched tickers enableMultiThreading w =
     (case py_iter tickers of
        None \<Rightarrow> (Inl TypeError, w)
      | Some ts \<Rightarrow>
          (case enableMultiThreading of
             PyBool b \<Rightarrow>
               if \<not> b then seq_loop fetch ts [] w
               else get_CIKs_multithread fetch sched ts w
           | _ \<Rightarrow> (Inl ValueError, w)))"


subsection \<open>\<^verbatim>\<open>get_CIKs_file_to_file\<close>\<close>


















subsection \<open>Stub servers and fetch functions\<close>

text \<open>A server that knows one company, one that refuses every request (as the SEC does
  when the request limit is exceeded), one that cannot be reached and one that refuses
  with a body that does not decode.\<close>

definition stub_server :: server where
  "stub_server h url =
     (if url = ticker_url (codes ''AAPL'')
      then Inr \<lparr>ok = True,
                content = Some (codes ''CIK#: 0000320193 (see all company filings)'')\<rparr>
      else Inr \<lparr>ok = True, content = Some (codes ''No matching Ticker Symbol.'')\<rparr>)"

definition refusing_server :: server where
  "refusing_server h url =
     Inr \<lparr>ok = False, content = Some (codes ''Request Rate Threshold Exceeded'')\<rparr>"

definition offline_server :: server where
  "offline_server h url = Inl ConnectionError"

definition garbled_server :: server where
  "garbled_server h url = Inr \<lparr>ok = False, content = None\<rparr>"

text \<open>A server that answers every request with an ok response whose body decodes, and a
  server whose answer to a URL does not depend on the requests made before.\<close>

definition answers :: "server \<Rightarrow> bool" where
  "answers srv = (\<forall>h url. \<exists>body. srv h url = Inr \<lparr>ok = True, content = Some body\<rparr>)"

definition steady :: "server \<Rightarrow> bool" where
  "steady srv = (\<forall>h h' url. srv h url = srv h' url)"

text \<open>\<open>recording fetch\<close> does what \<open>fetch\<close> does and appends the identifier and the
  outcome of every call to a log. \<open>deterministic r h\<close> has the outcome \<open>r ticker\<close>
  whatever the world is.\<close>

definition recording ::
  "'w fetch \<Rightarrow> str \<Rightarrow> 'w \<times> (str \<times> (py_error + str option)) list
   \<Rightarrow> (py_error + str option) \<times> 'w \<times> (str \<times> (py_error + str option)) list" where
  "recording fetch ticker st =
     (case st of (w, log) \<Rightarrow>
        (case fetch ticker w of (r, w') \<Rightarrow> (r, w', log @ [(ticker, r)])))"

definition deterministic ::
  "(str \<Rightarrow> py_error + str option) \<Rightarrow> (str \<Rightarrow> 'w \<Rightarrow> 'w) \<Rightarrow> 'w fetch" where
  "deterministic r h ticker w = (r ticker, h ticker w)"


subsection \<open>The rate gate as the specification words it\<close>

text \<open>The gate counts the admissions since the window opened. When the count has reached
  \<open>maxPerWindow\<close>, \<^verbatim>\<open>admit()\<close> waits until the window has elapsed, opens a new window and
  lets the caller through as the first admission of the new window; otherwise the caller
  is admitted and counted.\<close>

definition maxPerWindow :: nat where
  "maxPerWindow = 5"

fun spec_admit_all :: "nat \<Rightarrow> (int \<times> str) list \<Rightarrow> event list" where
  "spec_admit_all admitted [] = []"
| "spec_admit_all admitted ((pos, ticker) # rest) =
     (if admitted \<ge> maxPerWindow
      then [TimerJoined 1, TimerStarted 1, ThreadSpawned pos ticker] @ spec_admit_all 1 rest
      else ThreadSpawned pos ticker # spec_admit_all (admitted + 1) rest)"

fun enumerate_from :: "int \<Rightarrow> 'a list \<Rightarrow> (int \<times> 'a) list" where
  "enumerate_from n [] = []"
| "enumerate_from n (x # xs) = (n, x) # enumerate_from (n + 1) xs"

text \<open>\<open>within_quota k c tr\<close>: in the trace \<open>tr\<close>, entered with \<open>c\<close> threads started since
  the timer was last started, fewer than \<open>k\<close> threads have been started whenever a thread
  starts, so that no window admits more than \<open>k\<close>.\<close>

fun within_quota :: "nat \<Rightarrow> nat \<Rightarrow> event list \<Rightarrow> bool" where
  "within_quota k c [] = True"
| "within_quota k c (TimerStarted s # tr) = within_quota k 0 tr"
| "within_quota k c (TimerJoined s # tr) = within_quota k c tr"
| "within_quota k c (ThreadSpawned pos ticker # tr) = (c < k \<and> within_quota k (c + 1) tr)"


section \<open>Properties\<close>

subsection \<open>The Timer\<close>

text \<open>
  C10. \<^verbatim>\<open>Timer.wait()\<close> returns at once, without blocking, on a timer that was never
  started (\<^verbatim>\<open>_thread\<close> is \<^verbatim>\<open>None\<close> from the constructor). After a \<^verbatim>\<open>wait()\<close> that
  joined a started timer the attribute is deleted, not reset to \<^verbatim>\<open>None\<close>, and a second
  \<^verbatim>\<open>wait()\<close> with no \<^verbatim>\<open>start()\<close> in between fails with \<^verbatim>\<open>AttributeError\<close>.
\<close>

theorem timer_wait_never_started_and_twice:
  "timer_wait Timer_init = Inr (Timer_init, []) \<and>
   thread Timer_init = AttrNone \<and>
   timer_wait (fst (timer_start tm s)) =
     Inr ((fst (timer_start tm s))\<lparr>thread := AttrDeleted\<rparr>, [TimerJoined s]) \<and>
   timer_wait ((fst (timer_start tm s))\<lparr>thread := AttrDeleted\<rparr>) = Inl AttributeError"
  by (simp add: timer_wait_def timer_start_def Timer_init_def)

subsection \<open>One lookup\<close>

lemma get_CIK_unfold:
  "get_CIK srv ticker w =
     (case srv w (ticker_url ticker) of
        Inl e \<Rightarrow> (Inl e, w @ [ticker_url ticker])
      | Inr conn \<Rightarrow>
          (case srv (w @ [ticker_url ticker]) (ticker_url ticker) of
             Inl e \<Rightarrow> (Inl e, w @ [ticker_url ticker, ticker_url ticker])
           | Inr resp \<Rightarrow>
               (case content resp of
                  None \<Rightarrow> (Inl UnicodeDecodeError, w @ [ticker_url ticker, ticker_url ticker])
                | Some data \<Rightarrow>
                    if \<not> ok conn
                    then (Inl AssertionError, w @ [ticker_url ticker, ticker_url ticker])
                    else (Inr (case re_findall data of
                                 [] \<Rightarrow> None
                               | v # _ \<Rightarrow> Some (remove_newlines v)),
                          w @ [ticker_url ticker, ticker_url ticker]))))"
  by (simp add: get_CIK_def http_get_def Let_def split: sum.splits option.splits)

lemma findall_stub_body:
  "re_findall (codes ''CIK#: 0000320193 (see all company filings)'') = [codes ''0000320193'']"
  by (simp add: re_findall.simps is_digit_def filings_literal_def codes_def)

lemma findall_no_match:
  "re_findall (codes ''No matching Ticker Symbol.'') = []"
  by (simp add: re_findall.simps is_digit_def filings_literal_def codes_def)

lemma stub_server_AAPL:
  "stub_server h (ticker_url (codes ''AAPL'')) =
     Inr \<lparr>ok = True, content = Some (codes ''CIK#: 0000320193 (see all company filings)'')\<rparr>"
  by (simp add: stub_server_def)

lemma url_ZZZZ_not_AAPL: "ticker_url (codes ''ZZZZ'') \<noteq> ticker_url (codes ''AAPL'')"
  by (simp add: ticker_url_def py_strip_def is_space_def remove_newlines_def codes_def)

lemma stub_server_ZZZZ:
  "stub_server h (ticker_url (codes ''ZZZZ'')) =
     Inr \<lparr>ok = True, content = Some (codes ''No matching Ticker Symbol.'')\<rparr>"
  using url_ZZZZ_not_AAPL by (simp only: stub_server_def if_False)

lemma remove_newlines_digits: "remove_newlines (codes ''0000320193'') = codes ''0000320193''"
  by (simp add: remove_newlines_def codes_def)

text \<open>
  C6. A call of \<^verbatim>\<open>get_CIK\<close> is claimed to make exactly one HTTP round trip. The code
  calls \<^verbatim>\<open>get(url)\<close> twice, once for \<^verbatim>\<open>conn\<close> and once more for the body: for the
  ticker AAPL against the stub server the request log grows by two entries, both the
  same URL.
\<close>

theorem get_CIK_AAPL_two_round_trips:
  "get_CIK stub_server (codes ''AAPL'') [] =
     (Inr (Some (codes ''0000320193'')),
      [ticker_url (codes ''AAPL''), ticker_url (codes ''AAPL'')]) \<and>
   length (snd (get_CIK stub_server (codes ''AAPL'') [])) = 2"
  by (simp add: get_CIK_unfold stub_server_AAPL findall_stub_body remove_newlines_digits)

text \<open>
  C2, as claimed: \<^verbatim>\<open>get_CIK\<close> never raises. It does: a response that is not ok fails
  the assertion, a transport failure of \<^verbatim>\<open>get\<close> is not caught, and in the sequential
  mode the exception ends the batch.
\<close>

theorem get_CIK_raises_counterexample:
  "fst (get_CIK refusing_server (codes ''AAPL'') []) = Inl AssertionError \<and>
   fst (get_CIK offline_server (codes ''AAPL'') []) = Inl ConnectionError \<and>
   fst (get_CIKs (get_CIK refusing_server) [] (PyList [codes ''AAPL'']) (PyBool False) []) =
     Inl AssertionError"
  by (simp add: get_CIK_unfold refusing_server_def offline_server_def get_CIKs_def)

text \<open>What \<^verbatim>\<open>re.findall\<close> finds: nothing exactly when the literal is nowhere in the text,
  and otherwise first a run of digits that stands before an occurrence of the literal.\<close>

lemma starts_with_iff: "starts_with p s \<longleftrightarrow> (\<exists>r. s = p @ r)"
  by (induction p s rule: starts_with.induct) auto

lemma filings_literal_first: "\<exists>l. filings_literal = 32 # l"
  by (simp add: filings_literal_def codes_def)

lemma re_findall_head:
  "re_findall s = v # rest \<Longrightarrow>
   (\<forall>c\<in>set v. is_digit c) \<and> (\<exists>pre post. s = pre @ v @ filings_literal @ post)"
proof (induction s rule: re_findall.induct)
  case 1
  then show ?case by (simp add: re_findall.simps)
next
  case (2 c cs)
  define d where "d = takeWhile is_digit (c # cs)"
  define r where "r = dropWhile is_digit (c # cs)"
  have s: "c # cs = d @ r"
    unfolding d_def r_def by (rule takeWhile_dropWhile_id [symmetric])
  show ?case
  proof (cases "starts_with filings_literal r")
    case True
    then obtain post where post: "r = filings_literal @ post"
      using starts_with_iff by blast
    from True 2(3) have "v = d"
      by (simp add: re_findall.simps(2) [of c cs] Let_def d_def r_def)
    moreover have "\<forall>x\<in>set d. is_digit x"
      unfolding d_def by (meson set_takeWhileD)
    moreover have "c # cs = [] @ d @ filings_literal @ post"
      using s post by simp
    ultimately show ?thesis by blast
  next
    case False
    with 2(3) have "re_findall cs = v # rest"
      by (simp add: re_findall.simps(2) [of c cs] Let_def d_def r_def)
    with 2(2) [OF d_def r_def False] obtain pre post where
      dig: "\<forall>x\<in>set v. is_digit x" and cs: "cs = pre @ v @ filings_literal @ post"
      by blast
    have "c # cs = (c # pre) @ v @ filings_literal @ post"
      using cs by simp
    with dig show ?thesis by blast
  qed
qed

lemma re_findall_occurs:
  "s = pre @ filings_literal @ post \<Longrightarrow> re_findall s \<noteq> []"
proof (induction s arbitrary: pre rule: re_findall.induct)
  case 1
  then show ?case using filings_literal_first by auto
next
  case (2 c cs)
  define d where "d = takeWhile is_digit (c # cs)"
  define r where "r = dropWhile is_digit (c # cs)"
  show ?case
  proof (cases "starts_with filings_literal r")
    case True
    then show ?thesis
      by (simp add: re_findall.simps(2) [of c cs] Let_def d_def r_def)
  next
    case False
    have "pre \<noteq> []"
    proof
      assume "pre = []"
      with 2(3) have cs: "c # cs = filings_literal @ post" by simp
      obtain l where l: "filings_literal = 32 # l"
        using filings_literal_first by blast
      have "c # cs = 32 # (l @ post)"
        unfolding cs l by simp
      then have "c = 32" by simp
      then have "r = c # cs" by (simp add: r_def is_digit_def)
      with cs False show False using starts_with_iff by blast
    qed
    then obtain pre' where "pre = c # pre'" "cs = pre' @ filings_literal @ post"
      using 2(3) by (cases pre) auto
    with 2(2) [OF d_def r_def False] have "re_findall cs \<noteq> []" by blast
    with False show ?thesis
      by (simp add: re_findall.simps(2) [of c cs] Let_def d_def r_def)
  qed
qed

lemma re_findall_empty_iff:
  "re_findall s = [] \<longleftrightarrow> \<not> (\<exists>pre post. s = pre @ filings_literal @ post)"
proof
  assume e: "re_findall s = []"
  show "\<not> (\<exists>pre post. s = pre @ filings_literal @ post)"
    using re_findall_occurs e by blast
next
  assume n: "\<not> (\<exists>pre post. s = pre @ filings_literal @ post)"
  show "re_findall s = []"
  proof (cases "re_findall s")
    case Nil
    then show ?thesis .
  next
    case (Cons v rest)
    from re_findall_head [OF this] obtain pre post where
      "s = pre @ v @ filings_literal @ post" by blast
    then have "s = (pre @ v) @ filings_literal @ post" by simp
    with n show ?thesis by blast
  qed
qed

lemma remove_newlines_of_digits: "\<forall>c\<in>set d. is_digit c \<Longrightarrow> remove_newlines d = d"
  by (induction d) (auto simp: remove_newlines_def is_digit_def)

text \<open>Against a server that answers a URL the same way whenever it is asked, the outcome
  of \<^verbatim>\<open>get_CIK\<close> is a function of that one answer.\<close>

lemma get_CIK_steady:
  assumes "steady srv"
  shows "fst (get_CIK srv ticker w) =
     (case srv [] (ticker_url ticker) of
        Inl e \<Rightarrow> Inl e
      | Inr resp \<Rightarrow>
          (case content resp of
             None \<Rightarrow> Inl UnicodeDecodeError
           | Some data \<Rightarrow>
               if ok resp
               then Inr (case re_findall data of [] \<Rightarrow> None | v # _ \<Rightarrow> Some (remove_newlines v))
               else Inl AssertionError))"
proof -
  have a: "srv w (ticker_url ticker) = srv [] (ticker_url ticker)"
    using assms unfolding steady_def by blast
  have b: "srv (w @ [ticker_url ticker]) (ticker_url ticker) = srv [] (ticker_url ticker)"
    using assms unfolding steady_def by blast
  show ?thesis
    unfolding get_CIK_unfold a b
    by (simp split: sum.splits option.splits)
qed

text \<open>
  C2, amended. Against a server that answers a URL the same way whenever it is asked,
  \<^verbatim>\<open>get_CIK\<close> returns or raises as that answer decides. A transport failure is raised
  to the caller as it is. A body that does not decode raises the decoding error. A
  response whose body decodes and that is not ok raises \<^verbatim>\<open>AssertionError\<close>. An ok
  response whose body decodes makes \<^verbatim>\<open>get_CIK\<close> return: \<^verbatim>\<open>None\<close> exactly when the text
  " (see all company filings)" is nowhere in the body, and otherwise a string of digits
  that stands in the body immediately before an occurrence of that text. So a failed
  extraction never raises, and a failed connection is never turned into \<^verbatim>\<open>None\<close>.
\<close>

theorem get_CIK_outcome:
  assumes "steady srv"
  shows
    "(srv [] (ticker_url ticker) = Inl e \<longrightarrow> fst (get_CIK srv ticker w) = Inl e) \<and>
     (srv [] (ticker_url ticker) = Inr resp \<and> content resp = None \<longrightarrow>
        fst (get_CIK srv ticker w) = Inl UnicodeDecodeError) \<and>
     (srv [] (ticker_url ticker) = Inr resp \<and> content resp = Some data \<and> \<not> ok resp \<longrightarrow>
        fst (get_CIK srv ticker w) = Inl AssertionError) \<and>
     (srv [] (ticker_url ticker) = Inr resp \<and> content resp = Some data \<and> ok resp \<longrightarrow>
        (\<exists>v. fst (get_CIK srv ticker w) = Inr v \<and>
           (v = None \<longleftrightarrow> \<not> (\<exists>pre post. data = pre @ filings_literal @ post)) \<and>
           (\<forall>d. v = Some d \<longrightarrow>
              (\<forall>c\<in>set d. is_digit c) \<and>
              (\<exists>pre post. data = pre @ d @ filings_literal @ post))))"
proof -
  have last: "\<exists>v. Inr (case re_findall data of [] \<Rightarrow> None | x # _ \<Rightarrow> Some (remove_newlines x)) =
        (Inr v :: py_error + str option) \<and>
      (v = None \<longleftrightarrow> \<not> (\<exists>pre post. data = pre @ filings_literal @ post)) \<and>
      (\<forall>d. v = Some d \<longrightarrow>
         (\<forall>c\<in>set d. is_digit c) \<and> (\<exists>pre post. data = pre @ d @ filings_literal @ post))"
  proof (cases "re_findall data")
    case Nil
    then show ?thesis
      using re_findall_empty_iff [of data] by simp
  next
    case (Cons x rest)
    from re_findall_head [OF Cons] have
      dig: "\<forall>c\<in>set x. is_digit c" and occ: "\<exists>pre post. data = pre @ x @ filings_literal @ post"
      by blast+
    have "re_findall data \<noteq> []" using Cons by simp
    then have "\<exists>pre post. data = pre @ filings_literal @ post"
      using re_findall_empty_iff [of data] by blast
    then show ?thesis
      using Cons dig occ by (simp add: remove_newlines_of_digits)
  qed
  show ?thesis
    unfolding get_CIK_steady [OF assms]
    using last by (auto split: sum.splits option.splits)
qed

lemma steady_stub_server: "steady stub_server"
  by (simp add: steady_def stub_server_def)

lemma steady_refusing_server: "steady refusing_server"
  by (simp add: steady_def refusing_server_def)

lemma steady_offline_server: "steady offline_server"
  by (simp add: steady_def offline_server_def)

lemma steady_garbled_server: "steady garbled_server"
  by (simp add: steady_def garbled_server_def)

theorem get_CIK_outcome_witness:
  "steady stub_server \<and> steady refusing_server \<and> steady offline_server \<and>
   steady garbled_server \<and>
   fst (get_CIK offline_server (codes ''AAPL'') []) = Inl ConnectionError \<and>
   fst (get_CIK garbled_server (codes ''AAPL'') []) = Inl UnicodeDecodeError \<and>
   fst (get_CIK refusing_server (codes ''AAPL'') []) = Inl AssertionError \<and>
   fst (get_CIK stub_server (codes ''ZZZZ'') []) = Inr None \<and>
   (\<exists>d. fst (get_CIK stub_server (codes ''AAPL'') []) = Inr (Some d))"
proof -
  have off: "fst (get_CIK offline_server (codes ''AAPL'') []) = Inl ConnectionError"
    using get_CIK_outcome [OF steady_offline_server, of "codes ''AAPL''" ConnectionError "[]"]
    by (simp add: offline_server_def)
  have gar: "fst (get_CIK garbled_server (codes ''AAPL'') []) = Inl UnicodeDecodeError"
    using get_CIK_outcome [OF steady_garbled_server, of "codes ''AAPL''" _ "[]"
        "\<lparr>ok = False, content = None\<rparr>"]
    by (simp add: garbled_server_def)
  have ref: "fst (get_CIK refusing_server (codes ''AAPL'') []) = Inl AssertionError"
    using get_CIK_outcome [OF steady_refusing_server, of "codes ''AAPL''" _ "[]"
        "\<lparr>ok = False, content = Some (codes ''Request Rate Threshold Exceeded'')\<rparr>"
        "codes ''Request Rate Threshold Exceeded''"]
    by (simp add: refusing_server_def)
  have no: "\<not> (\<exists>pre post. codes ''No matching Ticker Symbol.'' = pre @ filings_literal @ post)"
    using re_findall_empty_iff findall_no_match by blast
  have z: "fst (get_CIK stub_server (codes ''ZZZZ'') []) = Inr None"
    using get_CIK_outcome [OF steady_stub_server, of "codes ''ZZZZ''" _ "[]"
        "\<lparr>ok = True, content = Some (codes ''No matching Ticker Symbol.'')\<rparr>"
        "codes ''No matching Ticker Symbol.''"] no
    by (simp add: stub_server_ZZZZ)
  have yes: "\<exists>pre post. codes ''CIK#: 0000320193 (see all company filings)'' =
      pre @ filings_literal @ post"
    using re_findall_empty_iff [of "codes ''CIK#: 0000320193 (see all company filings)''"]
      findall_stub_body by simp
  have a: "\<exists>d. fst (get_CIK stub_server (codes ''AAPL'') []) = Inr (Some d)"
    using get_CIK_outcome [OF steady_stub_server, of "codes ''AAPL''" _ "[]"
        "\<lparr>ok = True, content = Some (codes ''CIK#: 0000320193 (see all company filings)'')\<rparr>"
        "codes ''CIK#: 0000320193 (see all company filings)''"] yes
    by (auto simp: stub_server_AAPL)
  show ?thesis
    using off gar ref z a steady_stub_server steady_refusing_server steady_offline_server
      steady_garbled_server
    by blast
qed

subsection \<open>Validation of the arguments of \<^verbatim>\<open>get_CIKs\<close>\<close>

text \<open>
  C4, as claimed: an empty identifier sequence is rejected with an invalid-configuration
  error. It is not: \<^verbatim>\<open>get_CIKs\<close> checks that \<^verbatim>\<open>tickers\<close> is iterable and that the flag
  is a bool, and an empty list passes both checks; the result is the empty dict, in
  either mode.
\<close>

theorem get_CIKs_accepts_empty_counterexample:
  "get_CIKs (get_CIK stub_server) [] (PyList []) (PyBool False) [] = (Inr [], []) \<and>
   get_CIKs (get_CIK stub_server) [] (PyList []) (PyBool True) [] = (Inr [], [])"
  by (simp add: get_CIKs_def get_CIKs_multithread_def mt_dispatch_def timer_start_def
      Timer_init_def)

text \<open>
  C4, amended. \<^verbatim>\<open>get_CIKs\<close> rejects a \<^verbatim>\<open>tickers\<close> argument that is not iterable with
  \<^verbatim>\<open>TypeError\<close> and then a flag that is not a bool with \<^verbatim>\<open>ValueError\<close>, both before
  any fetch: the world is unchanged, whatever the fetch function is. An empty sequence
  is accepted and gives the empty dict, also without any fetch.
\<close>

theorem get_CIKs_validation:
  "(py_iter tickers = None \<longrightarrow>
      get_CIKs fetch sched tickers flag w = (Inl TypeError, w)) \<and>
   (py_iter tickers \<noteq> None \<and> (\<forall>b. flag \<noteq> PyBool b) \<longrightarrow>
      get_CIKs fetch sched tickers flag w = (Inl ValueError, w)) \<and>
   get_CIKs fetch sched (PyList []) (PyBool b) w = (Inr [], w)"
  by (cases flag)
    (auto simp: get_CIKs_def get_CIKs_multithread_def mt_dispatch_def timer_start_def
      Timer_init_def)

theorem get_CIKs_validation_witness:
  "get_CIKs (get_CIK stub_server) [] PyNone (PyBool True) [] = (Inl TypeError, []) \<and>
   get_CIKs (get_CIK stub_server) [] (PyInt 7) (PyBool True) [] = (Inl TypeError, []) \<and>
   get_CIKs (get_CIK stub_server) [] (PyList [codes ''AAPL'']) (PyInt 1) [] =
     (Inl ValueError, []) \<and>
   get_CIKs (get_CIK stub_server) [] (PyList [codes ''AAPL'']) PyNone [] = (Inl ValueError, [])"
  using get_CIKs_validation [of PyNone "get_CIK stub_server" "[]" "PyBool True" "[]"]
    get_CIKs_validation [of "PyInt 7" "get_CIK stub_server" "[]" "PyBool True" "[]"]
    get_CIKs_validation [of "PyList [codes ''AAPL'']" "get_CIK stub_server" "[]" "PyInt 1" "[]"]
    get_CIKs_validation [of "PyList [codes ''AAPL'']" "get_CIK stub_server" "[]" PyNone "[]"]
  by simp

subsection \<open>The rate gate of the multithreaded loop\<close>

lemma mt_loop_returns:
  "\<exists>tr'. mt_loop k i pos ts \<lparr>thread = AttrThread 1\<rparr> tr th =
      Inr (th @ ts, \<lparr>thread = AttrThread 1\<rparr>, tr')"
proof (induction ts arbitrary: i pos tr th)
  case Nil
  show ?case by simp
next
  case (Cons t ts)
  show ?case
    using Cons.IH [of pos "pos + 1" "tr @ [TimerJoined 1, TimerStarted 1, ThreadSpawned pos t]"
        "th @ [t]"]
      Cons.IH [of i "pos + 1" "tr @ [ThreadSpawned pos t]" "th @ [t]"]
    by (simp add: timer_wait_def timer_start_def)
qed

lemma mt_dispatch_threads:
  "\<exists>tr. mt_dispatch k tickers = Inr (tickers, \<lparr>thread = AttrThread 1\<rparr>, tr)"
  using mt_loop_returns [of k 0 0 tickers "[TimerStarted 1]" "[]"]
  by (simp add: mt_dispatch_def timer_start_def Timer_init_def)

lemma spec_admit_all_within_quota:
  "c \<le> 5 \<Longrightarrow> within_quota 5 c (spec_admit_all c xs)"
proof (induction xs arbitrary: c)
  case Nil
  show ?case by simp
next
  case (Cons x xs)
  obtain pos ticker where x: "x = (pos, ticker)" by (cases x)
  show ?case
  proof (cases "c = 5")
    case True
    with Cons.IH [of 1] show ?thesis by (simp add: x maxPerWindow_def)
  next
    case False
    with Cons.prems have "c < 5" by simp
    with Cons.IH [of "c + 1"] show ?thesis by (simp add: x maxPerWindow_def)
  qed
qed

lemma mt_loop_refines_spec:
  "0 \<le> pos - i \<Longrightarrow> pos - i \<le> 5 \<Longrightarrow>
   mt_loop 5 i pos ts \<lparr>thread = AttrThread 1\<rparr> tr th =
     Inr (th @ ts, \<lparr>thread = AttrThread 1\<rparr>,
          tr @ spec_admit_all (nat (pos - i)) (enumerate_from pos ts))"
proof (induction ts arbitrary: i pos tr th)
  case Nil
  show ?case by simp
next
  case (Cons t ts)
  show ?case
  proof (cases "pos - i \<ge> 5")
    case True
    with Cons.prems have d: "nat (pos - i) = 5" by simp
    from Cons.IH [of "pos + 1" pos
        "tr @ [TimerJoined 1, TimerStarted 1, ThreadSpawned pos t]" "th @ [t]"] True d
    show ?thesis
      by (simp add: timer_wait_def timer_start_def maxPerWindow_def)
  next
    case False
    then have d: "nat (pos + 1 - i) = nat (pos - i) + 1" "nat (pos - i) < 5"
      using Cons.prems by simp_all
    from Cons.IH [of "pos + 1" i "tr @ [ThreadSpawned pos t]" "th @ [t]"] False Cons.prems d
    show ?thesis
      by (simp add: maxPerWindow_def)
  qed
qed

text \<open>
  C3. In the multithreaded loop at most 5 threads are started between two starts of the
  timer. The events of the main thread are those of the gate in the specification's
  words: after 5 admissions in the current window the next ticker first joins the timer
  (the rest of the second), then starts it again, and is itself the first admission of
  the new window.
\<close>

theorem multithread_gate_windows:
  "mt_dispatch numberOfConnectionsPerSecond tickers =
     Inr (tickers, \<lparr>thread = AttrThread 1\<rparr>,
          TimerStarted 1 # spec_admit_all 0 (enumerate_from 0 tickers)) \<and>
   within_quota maxPerWindow 0 (TimerStarted 1 # spec_admit_all 0 (enumerate_from 0 tickers))"
  using mt_loop_refines_spec [of 0 0 tickers "[TimerStarted 1]" "[]"]
    spec_admit_all_within_quota [of 0 "enumerate_from 0 tickers"]
  by (simp add: mt_dispatch_def timer_start_def Timer_init_def
      numberOfConnectionsPerSecond_def maxPerWindow_def)





subsection \<open>The batch: one entry per identifier\<close>

lemma dict_set_keys: "fst ` set (dict_set d k v) = insert k (fst ` set d)"
proof (induction d)
  case Nil
  show ?case by simp
next
  case (Cons x d)
  obtain k' v' where x: "x = (k', v')" by (cases x)
  show ?case
  proof (cases "k' = k")
    case True
    then show ?thesis by (simp add: x)
  next
    case False
    then show ?thesis using Cons by (simp add: x insert_commute)
  qed
qed

lemma dict_set_distinct: "distinct (map fst d) \<Longrightarrow> distinct (map fst (dict_set d k v))"
proof (induction d)
  case Nil
  show ?case by simp
next
  case (Cons x d)
  obtain k' v' where x: "x = (k', v')" by (cases x)
  from Cons show ?case
    using dict_set_keys [of d k v] by (auto simp: x)
qed

lemma dict_set_map_of: "map_of (dict_set d k v) = (map_of d)(k \<mapsto> v)"
  by (induction d) (auto simp: fun_eq_iff)

lemma dict_set_subset: "set (dict_set d k v) \<subseteq> insert (k, v) (set d)"
  by (induction d) (auto split: if_splits)

lemma completion_order_mset: "mset (completion_order cs xs) = mset xs"
proof (induction cs xs rule: completion_order.induct)
  case (1 cs)
  show ?case by simp
next
  case (2 x xs)
  show ?case by simp
next
  case (3 c cs x xs)
  define l where "l = x # xs"
  define k where "k = c mod length l"
  have k: "k < length l" by (simp add: k_def l_def)
  have "mset (completion_order cs (take k l @ drop (Suc k) l)) = mset (take k l @ drop (Suc k) l)"
    using 3 [of k] by (simp add: k_def l_def)
  moreover have "mset l = mset (take k l @ l ! k # drop (Suc k) l)"
    using id_take_nth_drop [OF k] by simp
  ultimately have "mset (l ! k # completion_order cs (take k l @ drop (Suc k) l)) = mset l"
    by simp
  then show ?case
    by (simp add: Let_def k_def l_def del: take_Suc_Cons drop_Suc_Cons nth_Cons')
qed

lemma completion_order_set: "set (completion_order cs xs) = set xs"
  using completion_order_mset [of cs xs] by (metis set_mset_mset)

text \<open>Every rearrangement of the workers is the order of completion of some schedule, so
  a statement about all schedules is one about all orders of completion.\<close>

lemma completion_order_covers:
  "mset ys = mset xs \<Longrightarrow> \<exists>cs. completion_order cs xs = ys"
proof (induction ys arbitrary: xs)
  case Nil
  then show ?case by simp
next
  case (Cons y ys)
  then have "y \<in> set xs"
    by (metis list.set_intros(1) mset_eq_setD)
  then obtain k where k: "k < length xs" "xs ! k = y"
    by (auto simp: in_set_conv_nth)
  define r where "r = take k xs @ drop (Suc k) xs"
  have "xs = take k xs @ y # drop (Suc k) xs"
    using id_take_nth_drop [OF k(1)] k(2) by simp
  then have "mset xs = add_mset y (mset r)"
    by (metis r_def mset_append mset.simps(2) union_mset_add_mset_right)
  with Cons.prems have "mset ys = mset r" by simp
  then obtain cs where cs: "completion_order cs r = ys"
    using Cons.IH by blast
  obtain x xs' where xs: "xs = x # xs'"
    using k(1) by (cases xs) auto
  have "completion_order (k # cs) (x # xs') = y # ys"
    using k cs unfolding r_def xs
    by (simp add: Let_def del: take_Suc_Cons drop_Suc_Cons nth_Cons')
  then show ?case unfolding xs by blast
qed

lemma get_CIKs_multithread_workers:
  "get_CIKs_multithread fetch sched tickers w =
     (Inr (fst (run_workers fetch (completion_order sched tickers) [] w)),
      snd (run_workers fetch (completion_order sched tickers) [] w))"
proof -
  obtain tr where "mt_dispatch numberOfConnectionsPerSecond tickers =
      Inr (tickers, \<lparr>thread = AttrThread 1\<rparr>, tr)"
    using mt_dispatch_threads by blast
  then show ?thesis
    by (simp add: get_CIKs_multithread_def split: prod.splits)
qed

lemma get_CIK_answers:
  assumes "answers srv"
  shows "\<exists>v. get_CIK srv t w = (Inr v, w @ [ticker_url t, ticker_url t])"
proof -
  obtain b1 where b1: "srv w (ticker_url t) = Inr \<lparr>ok = True, content = Some b1\<rparr>"
    using assms unfolding answers_def by blast
  obtain b2 where b2:
    "srv (w @ [ticker_url t]) (ticker_url t) = Inr \<lparr>ok = True, content = Some b2\<rparr>"
    using assms unfolding answers_def by blast
  show ?thesis
    by (simp add: get_CIK_unfold b1 b2)
qed

lemma answers_stub_server: "answers stub_server"
  by (simp add: answers_def stub_server_def)

lemma recording_returns:
  "fetch t w = (Inr v, w1) \<Longrightarrow> recording fetch t (w, log) = (Inr v, w1, log @ [(t, Inr v)])"
  by (simp add: recording_def)

lemma seq_loop_recording:
  assumes "\<forall>t\<in>set ts. \<forall>w. \<exists>v w'. fetch t w = (Inr v, w')"
  shows "\<exists>out' w' new.
     seq_loop (recording fetch) ts out (w, log) = (Inr out', w', log @ new) \<and>
     map fst new = ts \<and>
     fst ` set out' = fst ` set out \<union> set ts \<and>
     (distinct (map fst out) \<longrightarrow> distinct (map fst out')) \<and>
     (\<forall>p\<in>set out'. p \<in> set out \<or> (fst p, Inr (snd p)) \<in> set new)"
  using assms
proof (induction ts arbitrary: out w log)
  case Nil
  show ?case by simp
next
  case (Cons t ts)
  have "\<exists>v w1. fetch t w = (Inr v, w1)"
    using Cons.prems by simp
  then obtain v w1 where f: "fetch t w = (Inr v, w1)"
    by blast
  have rest: "\<forall>t\<in>set ts. \<forall>w. \<exists>v w'. fetch t w = (Inr v, w')"
    using Cons.prems by simp
  obtain out' w' new where
    run: "seq_loop (recording fetch) ts (dict_set out t v) (w1, log @ [(t, Inr v)]) =
            (Inr out', w', (log @ [(t, Inr v)]) @ new)"
    and new: "map fst new = ts"
    and keys: "fst ` set out' = fst ` set (dict_set out t v) \<union> set ts"
    and dist: "distinct (map fst (dict_set out t v)) \<longrightarrow> distinct (map fst out')"
    and sub: "\<forall>p\<in>set out'. p \<in> set (dict_set out t v) \<or> (fst p, Inr (snd p)) \<in> set new"
    using Cons.IH [OF rest, of "dict_set out t v" w1 "log @ [(t, Inr v)]"] by blast
  have "seq_loop (recording fetch) (t # ts) out (w, log) =
          (Inr out', w', log @ ((t, Inr v) # new))"
    using run recording_returns [of fetch t w v w1 log] f by simp
  moreover have "map fst ((t, Inr v) # new) = t # ts"
    using new by simp
  moreover have "fst ` set out' = fst ` set out \<union> set (t # ts)"
    using keys by (simp add: dict_set_keys)
  moreover have "distinct (map fst out) \<longrightarrow> distinct (map fst out')"
    using dist dict_set_distinct [of out t v] by blast
  moreover have "\<forall>p\<in>set out'. p \<in> set out \<or> (fst p, Inr (snd p)) \<in> set ((t, Inr v) # new)"
    using sub dict_set_subset [of out t v] by auto
  ultimately have all:
    "seq_loop (recording fetch) (t # ts) out (w, log) =
       (Inr out', w', log @ ((t, Inr v) # new)) \<and>
     map fst ((t, Inr v) # new) = t # ts \<and>
     fst ` set out' = fst ` set out \<union> set (t # ts) \<and>
     (distinct (map fst out) \<longrightarrow> distinct (map fst out')) \<and>
     (\<forall>p\<in>set out'. p \<in> set out \<or> (fst p, Inr (snd p)) \<in> set ((t, Inr v) # new))"
    by simp
  show ?case
    by (intro exI) (fact all)
qed

lemma run_workers_recording:
  assumes "\<forall>t\<in>set ts. \<forall>w. \<exists>v w'. fetch t w = (Inr v, w')"
  shows "\<exists>out' w' new.
     run_workers (recording fetch) ts out (w, log) = (out', w', log @ new) \<and>
     map fst new = ts \<and>
     fst ` set out' = fst ` set out \<union> set ts \<and>
     (distinct (map fst out) \<longrightarrow> distinct (map fst out')) \<and>
     (\<forall>p\<in>set out'. p \<in> set out \<or> (fst p, Inr (snd p)) \<in> set new)"
  using assms
proof (induction ts arbitrary: out w log)
  case Nil
  show ?case by simp
next
  case (Cons t ts)
  have "\<exists>v w1. fetch t w = (Inr v, w1)"
    using Cons.prems by simp
  then obtain v w1 where f: "fetch t w = (Inr v, w1)"
    by blast
  have rest: "\<forall>t\<in>set ts. \<forall>w. \<exists>v w'. fetch t w = (Inr v, w')"
    using Cons.prems by simp
  obtain out' w' new where
    run: "run_workers (recording fetch) ts (dict_set out t v) (w1, log @ [(t, Inr v)]) =
            (out', w', (log @ [(t, Inr v)]) @ new)"
    and new: "map fst new = ts"
    and keys: "fst ` set out' = fst ` set (dict_set out t v) \<union> set ts"
    and dist: "distinct (map fst (dict_set out t v)) \<longrightarrow> distinct (map fst out')"
    and sub: "\<forall>p\<in>set out'. p \<in> set (dict_set out t v) \<or> (fst p, Inr (snd p)) \<in> set new"
    using Cons.IH [OF rest, of "dict_set out t v" w1 "log @ [(t, Inr v)]"] by blast
  have "run_workers (recording fetch) (t # ts) out (w, log) =
          (out', w', log @ ((t, Inr v) # new))"
    using run recording_returns [of fetch t w v w1 log] f by simp
  moreover have "map fst ((t, Inr v) # new) = t # ts"
    using new by simp
  moreover have "fst ` set out' = fst ` set out \<union> set (t # ts)"
    using keys by (simp add: dict_set_keys)
  moreover have "distinct (map fst out) \<longrightarrow> distinct (map fst out')"
    using dist dict_set_distinct [of out t v] by blast
  moreover have "\<forall>p\<in>set out'. p \<in> set out \<or> (fst p, Inr (snd p)) \<in> set ((t, Inr v) # new)"
    using sub dict_set_subset [of out t v] by auto
  ultimately have all:
    "run_workers (recording fetch) (t # ts) out (w, log) =
       (out', w', log @ ((t, Inr v) # new)) \<and>
     map fst ((t, Inr v) # new) = t # ts \<and>
     fst ` set out' = fst ` set out \<union> set (t # ts) \<and>
     (distinct (map fst out) \<longrightarrow> distinct (map fst out')) \<and>
     (\<forall>p\<in>set out'. p \<in> set out \<or> (fst p, Inr (snd p)) \<in> set ((t, Inr v) # new))"
    by simp
  show ?case
    by (intro exI) (fact all)
qed

text \<open>
  C1, as claimed: for every fetch function the keys of the returned mapping are the
  distinct input identifiers. Not for the program's own fetch function against a server
  that refuses: the worker of AAPL dies on the assertion without writing, and the
  multithreaded batch returns the empty dict for the input AAPL.
\<close>

theorem get_CIKs_drops_raising_lookup_counterexample:
  "get_CIKs (get_CIK refusing_server) [] (PyList [codes ''AAPL'']) (PyBool True) [] =
     (Inr [], [ticker_url (codes ''AAPL''), ticker_url (codes ''AAPL'')])"
  by (simp add: get_CIKs_def get_CIKs_multithread_workers get_CIK_unfold refusing_server_def)

text \<open>
  C1, amended. For every sequence of identifiers and every fetch function that, called
  on one of these identifiers, returns (a value or \<^verbatim>\<open>None\<close>) whatever the state of the
  world, \<^verbatim>\<open>get_CIKs\<close> returns, in the sequential mode and in the multithreaded mode
  under every order of completion, a dict whose keys are exactly the distinct input
  identifiers, each once. Every entry holds a value that a call for its identifier
  returned in this run, and every input position was fetched once, so that a duplicated
  identifier holds one of the values fetched for it.
\<close>

theorem get_CIKs_one_entry_per_identifier:
  assumes "\<forall>t\<in>set tickers. \<forall>w. \<exists>v w'. fetch t w = (Inr v, w')"
  shows "\<exists>out w' log.
     get_CIKs (recording fetch) sched (PyList tickers) (PyBool mt) (w, []) =
       (Inr out, w', log) \<and>
     set (map fst out) = set tickers \<and>
     distinct (map fst out) \<and>
     (\<forall>p\<in>set out. (fst p, Inr (snd p)) \<in> set log) \<and>
     mset (map fst log) = mset tickers"
proof (cases mt)
  case False
  have "\<exists>out w' new.
      seq_loop (recording fetch) tickers [] (w, []) = (Inr out, w', new) \<and>
      map fst new = tickers \<and> fst ` set out = set tickers \<and> distinct (map fst out) \<and>
      (\<forall>p\<in>set out. (fst p, Inr (snd p)) \<in> set new)"
    using seq_loop_recording [OF assms, of "[]" w "[]"] by simp
  then obtain out w' new where
    "seq_loop (recording fetch) tickers [] (w, []) = (Inr out, w', new)"
    "map fst new = tickers" "fst ` set out = set tickers" "distinct (map fst out)"
    "(\<forall>p\<in>set out. (fst p, Inr (snd p)) \<in> set new)"
    by blast
  moreover from this have "mset (map fst new) = mset tickers"
    by simp
  ultimately show ?thesis
    using False by (simp add: get_CIKs_def del: mset_map)
next
  case True
  define order where "order = completion_order sched tickers"
  have o: "set order = set tickers"
    by (simp add: order_def completion_order_set)
  have h: "\<forall>t\<in>set order. \<forall>w. \<exists>v w'. fetch t w = (Inr v, w')"
    using assms o by simp
  have "\<exists>out w' new.
      run_workers (recording fetch) order [] (w, []) = (out, w', new) \<and>
      map fst new = order \<and> fst ` set out = set order \<and> distinct (map fst out) \<and>
      (\<forall>p\<in>set out. (fst p, Inr (snd p)) \<in> set new)"
    using run_workers_recording [OF h, of "[]" w "[]"] by simp
  then obtain out w' new where
    run: "run_workers (recording fetch) order [] (w, []) = (out, w', new)"
    and new: "map fst new = order"
    and rest: "fst ` set out = set order" "distinct (map fst out)"
      "(\<forall>p\<in>set out. (fst p, Inr (snd p)) \<in> set new)"
    by blast
  have "mset (map fst new) = mset tickers"
    using new by (simp add: order_def completion_order_mset)
  then show ?thesis
    using True run rest o
    by (simp add: get_CIKs_def get_CIKs_multithread_workers order_def [symmetric]
        del: mset_map)
qed

theorem get_CIKs_one_entry_per_identifier_witness:
  "\<exists>out w' log.
     get_CIKs (recording (get_CIK stub_server)) [1]
       (PyList [codes ''AAPL'', codes ''ZZZZ'', codes ''AAPL'']) (PyBool True) ([], []) =
       (Inr out, w', log) \<and>
     set (map fst out) = {codes ''AAPL'', codes ''ZZZZ''} \<and>
     distinct (map fst out) \<and>
     (\<forall>p\<in>set out. (fst p, Inr (snd p)) \<in> set log) \<and>
     mset (map fst log) = mset [codes ''AAPL'', codes ''ZZZZ'', codes ''AAPL'']"
proof -
  have "\<forall>t\<in>set [codes ''AAPL'', codes ''ZZZZ'', codes ''AAPL''].
      \<forall>w. \<exists>v w'. get_CIK stub_server t w = (Inr v, w')"
    using get_CIK_answers [OF answers_stub_server] by blast
  from get_CIKs_one_entry_per_identifier [OF this, of "[1]" True "[]"]
  show ?thesis
    by (simp add: insert_commute)
qed

subsection \<open>The two modes on a deterministic fetch function\<close>

lemma seq_loop_deterministic:
  assumes "\<forall>t\<in>set ts. r t = Inr (g t)"
  shows "\<exists>out' w'.
     seq_loop (deterministic r h) ts out w = (Inr out', w') \<and>
     map_of out' = (\<lambda>t. if t \<in> set ts then Some (g t) else map_of out t) \<and>
     (distinct (map fst out) \<longrightarrow> distinct (map fst out'))"
  using assms
proof (induction ts arbitrary: out w)
  case Nil
  show ?case by simp
next
  case (Cons t ts)
  have t: "r t = Inr (g t)" and rest: "\<forall>t\<in>set ts. r t = Inr (g t)"
    using Cons.prems by simp_all
  obtain out' w' where
    run: "seq_loop (deterministic r h) ts (dict_set out t (g t)) (h t w) = (Inr out', w')"
    and m: "map_of out' =
      (\<lambda>x. if x \<in> set ts then Some (g x) else map_of (dict_set out t (g t)) x)"
    and dist: "distinct (map fst (dict_set out t (g t))) \<longrightarrow> distinct (map fst out')"
    using Cons.IH [OF rest, of "dict_set out t (g t)" "h t w"] by blast
  have all:
    "seq_loop (deterministic r h) (t # ts) out w = (Inr out', w') \<and>
     map_of out' = (\<lambda>x. if x \<in> set (t # ts) then Some (g x) else map_of out x) \<and>
     (distinct (map fst out) \<longrightarrow> distinct (map fst out'))"
    using run m dist dict_set_distinct [of out t "g t"] t
    by (auto simp: deterministic_def dict_set_map_of fun_eq_iff)
  show ?case
    by (intro exI) (fact all)
qed

lemma run_workers_deterministic:
  assumes "\<forall>t\<in>set ts. r t = Inr (g t)"
  shows "\<exists>out' w'.
     run_workers (deterministic r h) ts out w = (out', w') \<and>
     map_of out' = (\<lambda>t. if t \<in> set ts then Some (g t) else map_of out t) \<and>
     (distinct (map fst out) \<longrightarrow> distinct (map fst out'))"
  using assms
proof (induction ts arbitrary: out w)
  case Nil
  show ?case by simp
next
  case (Cons t ts)
  have t: "r t = Inr (g t)" and rest: "\<forall>t\<in>set ts. r t = Inr (g t)"
    using Cons.prems by simp_all
  obtain out' w' where
    run: "run_workers (deterministic r h) ts (dict_set out t (g t)) (h t w) = (out', w')"
    and m: "map_of out' =
      (\<lambda>x. if x \<in> set ts then Some (g x) else map_of (dict_set out t (g t)) x)"
    and dist: "distinct (map fst (dict_set out t (g t))) \<longrightarrow> distinct (map fst out')"
    using Cons.IH [OF rest, of "dict_set out t (g t)" "h t w"] by blast
  have all:
    "run_workers (deterministic r h) (t # ts) out w = (out', w') \<and>
     map_of out' = (\<lambda>x. if x \<in> set (t # ts) then Some (g x) else map_of out x) \<and>
     (distinct (map fst out) \<longrightarrow> distinct (map fst out'))"
    using run m dist dict_set_distinct [of out t "g t"] t
    by (auto simp: deterministic_def dict_set_map_of fun_eq_iff)
  show ?case
    by (intro exI) (fact all)
qed

lemma distinct_dict_set_eq:
  assumes "distinct (map fst a)" "distinct (map fst b)" "map_of a = map_of b"
  shows "set a = set b"
proof -
  have "(k, v) \<in> set a \<longleftrightarrow> (k, v) \<in> set b" for k v
    using assms by (metis map_of_eq_Some_iff)
  then show ?thesis by auto
qed

text \<open>
  C5, as claimed: for every deterministic fetch function the two modes return the same
  mapping. Not when a lookup raises: with the server out of reach every call of
  \<^verbatim>\<open>get_CIK\<close> raises the same error, the sequential batch ends with that error and the
  multithreaded batch returns the empty dict.
\<close>

theorem get_CIKs_modes_differ_counterexample:
  "fst (get_CIKs (get_CIK offline_server) [] (PyList [codes ''AAPL'', codes ''ZZZZ''])
          (PyBool False) []) = Inl ConnectionError \<and>
   fst (get_CIKs (get_CIK offline_server) [] (PyList [codes ''AAPL'', codes ''ZZZZ''])
          (PyBool True) []) = Inr []"
  by (simp add: get_CIKs_def get_CIKs_multithread_workers get_CIK_unfold offline_server_def)

text \<open>
  C5, amended. For every sequence of identifiers and every deterministic fetch function
  (its outcome depends on the identifier only; what it does to the world is free) that
  returns for each of these identifiers, the sequential run and the multithreaded run,
  under every order of completion, return the same mapping: the same keys with the same
  values, namely the values the fetch function returns for the input identifiers. The
  two dicts hold the same items; only the order of insertion may differ.
\<close>

theorem get_CIKs_modes_agree:
  assumes "\<forall>t\<in>set tickers. r t = Inr (g t)"
  shows "\<exists>m1 w1 m2 w2.
     get_CIKs (deterministic r h) sched (PyList tickers) (PyBool False) w = (Inr m1, w1) \<and>
     get_CIKs (deterministic r h) sched (PyList tickers) (PyBool True) w = (Inr m2, w2) \<and>
     map_of m1 = map_of m2 \<and>
     map_of m1 = (\<lambda>t. if t \<in> set tickers then Some (g t) else None) \<and>
     distinct (map fst m1) \<and> distinct (map fst m2) \<and>
     set m1 = set m2"
proof -
  define order where "order = completion_order sched tickers"
  have o: "set order = set tickers"
    by (simp add: order_def completion_order_set)
  have ho: "\<forall>t\<in>set order. r t = Inr (g t)"
    using assms o by simp
  have "\<exists>m1 w1. seq_loop (deterministic r h) tickers [] w = (Inr m1, w1) \<and>
      map_of m1 = (\<lambda>t. if t \<in> set tickers then Some (g t) else None) \<and>
      distinct (map fst m1)"
    using seq_loop_deterministic [OF assms, of h "[]" w] by (simp cong: if_cong)
  then obtain m1 w1 where
    s: "seq_loop (deterministic r h) tickers [] w = (Inr m1, w1)"
    and m1: "map_of m1 = (\<lambda>t. if t \<in> set tickers then Some (g t) else None)"
    and d1: "distinct (map fst m1)"
    by blast
  have "\<exists>m2 w2. run_workers (deterministic r h) order [] w = (m2, w2) \<and>
      map_of m2 = (\<lambda>t. if t \<in> set order then Some (g t) else None) \<and>
      distinct (map fst m2)"
    using run_workers_deterministic [OF ho, of h "[]" w] by (simp cong: if_cong)
  then obtain m2 w2 where
    r: "run_workers (deterministic r h) order [] w = (m2, w2)"
    and m2: "map_of m2 = (\<lambda>t. if t \<in> set order then Some (g t) else None)"
    and d2: "distinct (map fst m2)"
    by blast
  have eq: "map_of m1 = map_of m2"
    using m1 m2 o by simp
  have all:
    "get_CIKs (deterministic r h) sched (PyList tickers) (PyBool False) w = (Inr m1, w1) \<and>
     get_CIKs (deterministic r h) sched (PyList tickers) (PyBool True) w = (Inr m2, w2) \<and>
     map_of m1 = map_of m2 \<and>
     map_of m1 = (\<lambda>t. if t \<in> set tickers then Some (g t) else None) \<and>
     distinct (map fst m1) \<and> distinct (map fst m2) \<and>
     set m1 = set m2"
    using s r eq m1 d1 d2 distinct_dict_set_eq [OF d1 d2 eq]
    by (simp add: get_CIKs_def get_CIKs_multithread_workers order_def [symmetric])
  show ?thesis
    by (intro exI) (fact all)
qed

text \<open>The program's own fetch function is deterministic against a server that answers a
  URL the same way whenever it is asked.\<close>

lemma get_CIK_deterministic:
  assumes "steady srv"
  shows "get_CIK srv =
     deterministic (\<lambda>t. fst (get_CIK srv t [])) (\<lambda>t w. snd (get_CIK srv t w))"
proof (intro ext)
  fix t w
  have "fst (get_CIK srv t w) = fst (get_CIK srv t [])"
    by (simp only: get_CIK_steady [OF assms])
  then show "get_CIK srv t w =
      deterministic (\<lambda>t. fst (get_CIK srv t [])) (\<lambda>t w. snd (get_CIK srv t w)) t w"
    by (simp add: deterministic_def prod_eq_iff)
qed

lemma stub_lookup_AAPL:
  "fst (get_CIK stub_server (codes ''AAPL'') []) = Inr (Some (codes ''0000320193''))"
  by (simp add: get_CIK_unfold stub_server_AAPL findall_stub_body remove_newlines_digits)

lemma stub_lookup_ZZZZ:
  "fst (get_CIK stub_server (codes ''ZZZZ'') []) = Inr None"
  by (simp add: get_CIK_unfold stub_server_ZZZZ findall_no_match)

lemma codes_AAPL_not_ZZZZ: "codes ''ZZZZ'' \<noteq> codes ''AAPL''"
  by (simp add: codes_def)

theorem get_CIKs_modes_agree_witness:
  "\<exists>m1 w1 m2 w2.
     get_CIKs (get_CIK stub_server) [1]
       (PyList [codes ''AAPL'', codes ''ZZZZ'', codes ''AAPL'']) (PyBool False) [] =
       (Inr m1, w1) \<and>
     get_CIKs (get_CIK stub_server) [1]
       (PyList [codes ''AAPL'', codes ''ZZZZ'', codes ''AAPL'']) (PyBool True) [] =
       (Inr m2, w2) \<and>
     map_of m1 = map_of m2 \<and> set m1 = set m2 \<and>
     map_of m1 (codes ''AAPL'') = Some (Some (codes ''0000320193'')) \<and>
     map_of m1 (codes ''ZZZZ'') = Some None"
proof -
  define g where
    "g = (\<lambda>t. if t = codes ''AAPL'' then Some (codes ''0000320193'') else (None :: str option))"
  have h: "\<forall>t\<in>set [codes ''AAPL'', codes ''ZZZZ'', codes ''AAPL''].
      fst (get_CIK stub_server t []) = Inr (g t)"
    using codes_AAPL_not_ZZZZ by (simp add: g_def stub_lookup_AAPL stub_lookup_ZZZZ)
  from get_CIKs_modes_agree [OF h, of "\<lambda>t w. snd (get_CIK stub_server t w)" "[1]" "[]"]
  obtain m1 w1 m2 w2 where
    "get_CIKs (get_CIK stub_server) [1]
       (PyList [codes ''AAPL'', codes ''ZZZZ'', codes ''AAPL'']) (PyBool False) [] =
       (Inr m1, w1)"
    "get_CIKs (get_CIK stub_server) [1]
       (PyList [codes ''AAPL'', codes ''ZZZZ'', codes ''AAPL'']) (PyBool True) [] =
       (Inr m2, w2)"
    "map_of m1 = map_of m2" "set m1 = set m2"
    and m: "map_of m1 = (\<lambda>t. if t \<in> set [codes ''AAPL'', codes ''ZZZZ'', codes ''AAPL'']
        then Some (g t) else None)"
    unfolding get_CIK_deterministic [OF steady_stub_server, symmetric] by blast
  moreover have "map_of m1 (codes ''AAPL'') = Some (Some (codes ''0000320193''))"
    unfolding m by (simp add: g_def)
  moreover have "map_of m1 (codes ''ZZZZ'') = Some None"
    unfolding m using codes_AAPL_not_ZZZZ by (simp add: g_def)
  ultimately show ?thesis by blast
qed

subsection \<open>Keys are the identifiers as given\<close>









subsection \<open>The file sink\<close>





















end
